theory Spec2Isabelle
  imports Main "HOL-Library.Word"
begin

section \<open>The aligned read stub of stdext (unixext\_read\_stubs.c)\<close>

text \<open>
  The file holds one C function, \<open>stub_stdext_unix_read\<close>, called from OCaml with a
  descriptor, a string buffer, an offset and a length. It allocates a 512-byte aligned
  staging block with \<open>posix_memalign\<close>, reads into it with one \<open>read\<close> between
  \<open>enter_blocking_section\<close> and \<open>leave_blocking_section\<close>, copies what was read into
  the OCaml buffer with \<open>memmove\<close>, frees the block and returns the count.

  The function is modelled on the LP64 data model of x86-64 Linux with glibc: \<open>long\<close>,
  \<open>size_t\<close>, \<open>ssize_t\<close> and pointers have 64 bits, \<open>int\<close> has 32. The conversions the C text
  performs between these types are written out with words. Everything outside the file
  (the allocator, the kernel, the OCaml runtime) is a world that is passed through the
  calls and that records each call in the order it is made.
\<close>

subsection \<open>C types and OCaml values\<close>

type_synonym byte = "8 word"
type_synonym cint = "32 word"
type_synonym long = "64 word"
type_synonym size_t = "64 word"

text \<open>
  An OCaml integer argument is taken as the integer it denotes; on a 64-bit runtime it has
  63 bits. \<open>Long_val\<close> yields it as a C \<open>long\<close>, \<open>Int_val\<close> is \<open>(int) Long_val(x)\<close>,
  and \<open>Val_int\<close> turns a C \<open>int\<close> back into an OCaml integer.
\<close>

definition is_ocaml_int :: "int \<Rightarrow> bool" where
  "is_ocaml_int n \<longleftrightarrow> - (2 ^ 62) \<le> n \<and> n < 2 ^ 62"

definition Long_val :: "int \<Rightarrow> long" where
  "Long_val x = word_of_int x"

definition Int_val :: "int \<Rightarrow> cint" where
  "Int_val x = ucast (Long_val x)"

definition Val_int :: "cint \<Rightarrow> int" where
  "Val_int x = sint x"

text \<open>The conversions of the call \<open>read(.., .., (int) numbytes)\<close>: the explicit cast
  from \<open>long\<close> to \<open>int\<close> keeps the low 32 bits, and passing the \<open>int\<close> for the
  \<open>size_t\<close> parameter sign-extends it.\<close>

definition int_of_long :: "long \<Rightarrow> cint" where
  "int_of_long x = ucast x"

definition size_t_of_int :: "cint \<Rightarrow> size_t" where
  "size_t_of_int x = scast x"

definition size_t_of_long :: "long \<Rightarrow> size_t" where
  "size_t_of_long x = x"

definition BLOCK_SIZE :: nat where
  "BLOCK_SIZE = 512"

definition NULL :: nat where
  "NULL = 0"

definition Nothing :: string where
  "Nothing = ''''"

subsection \<open>The world outside the stub\<close>

text \<open>The calls the stub makes, with their arguments and, for the two that report one,
  the result: \<open>Posix_memalign alignment size ret p\<close> returned \<open>ret\<close> and left the pointer at
  \<open>p\<close>; \<open>Read fd buf count ret\<close> returned \<open>ret\<close>; \<open>Memmove ofs src n\<close> copies \<open>n\<close> bytes
  from address \<open>src\<close> to offset \<open>ofs\<close> of the OCaml buffer.\<close>

datatype event =
    Posix_memalign nat nat cint nat
  | Enter_blocking_section
  | Read cint nat nat int
  | Leave_blocking_section
  | Memmove int nat nat
  | Free nat

fun is_read :: "event \<Rightarrow> bool" where
  "is_read (Read fd buf count ret) = True"
| "is_read e = False"

text \<open>A descriptor is open on a stream of bytes still to be read; \<open>Failing e bs\<close> is a
  descriptor whose next \<open>read\<close> fails with error number \<open>e\<close> (an interrupted call, an
  I/O error) and which is readable afterwards.\<close>

datatype fdstate = Readable "byte list" | Failing cint "byte list"

record world =
  errno :: cint
  blocks :: "nat \<rightharpoonup> nat"
  brk :: nat
  mem_limit :: nat
  fds :: "cint \<rightharpoonup> fdstate"
  calls :: "event list"

definition EINTR :: cint where "EINTR = 4"
definition EBADF :: cint where "EBADF = 9"
definition ENOMEM :: cint where "ENOMEM = 12"
definition EFAULT :: cint where "EFAULT = 14"
definition EINVAL :: cint where "EINVAL = 22"

definition PTRDIFF_MAX :: nat where
  "PTRDIFF_MAX = 2 ^ 63 - 1"

definition MAX_RW_COUNT :: nat where
  "MAX_RW_COUNT = 2147479552"

text \<open>User space ends at \<open>TASK_SIZE_MAX\<close>, which is \<open>2^47 - 4096\<close> on x86-64. The kernel
  accepts a user buffer of \<open>count\<close> bytes at \<open>addr\<close> only when it lies below that address.\<close>

definition TASK_SIZE_MAX :: nat where
  "TASK_SIZE_MAX = 140737488351232"

definition access_ok :: "nat \<Rightarrow> nat \<Rightarrow> bool" where
  "access_ok addr count \<longleftrightarrow> count \<le> TASK_SIZE_MAX \<and> addr \<le> TASK_SIZE_MAX - count"

definition record_call :: "event \<Rightarrow> world \<Rightarrow> world" where
  "record_call e w = w\<lparr>calls := calls w @ [e]\<rparr>"

definition new_calls :: "world \<Rightarrow> world \<Rightarrow> event list" where
  "new_calls w w' = drop (length (calls w)) (calls w')"

text \<open>
  \<open>posix_memalign(&p, alignment, size)\<close> as glibc does it: the alignment has to be a
  power of two and a multiple of the pointer size, else the call returns \<open>EINVAL\<close>; when
  the memory does not suffice it returns \<open>ENOMEM\<close>, and the allocation that failed
  underneath has stored \<open>ENOMEM\<close> in \<open>errno\<close>. On failure the pointer is left as it was.
  On success the pointer is a multiple of the alignment, the block lies in user space and
  is live until it is freed. \<open>brk\<close> is the highest address handed out so far.
\<close>

definition valid_alignment :: "nat \<Rightarrow> bool" where
  "valid_alignment a \<longleftrightarrow> a mod 8 = 0 \<and> a \<in> set (map (\<lambda>k. 2 ^ k) [3..<64])"

definition align_up :: "nat \<Rightarrow> nat \<Rightarrow> nat" where
  "align_up a alignment = ((a + alignment - 1) div alignment) * alignment"

definition posix_memalign :: "world \<Rightarrow> nat \<Rightarrow> nat \<Rightarrow> nat \<Rightarrow> world \<times> cint \<times> nat" where
  "posix_memalign w memptr alignment sz =
     (if \<not> valid_alignment alignment
      then (record_call (Posix_memalign alignment sz EINVAL memptr) w, EINVAL, memptr)
      else
        let base = align_up (Suc (brk w)) alignment in
        if PTRDIFF_MAX < sz \<or> mem_limit w < base + sz \<or> TASK_SIZE_MAX < base + sz
        then ((record_call (Posix_memalign alignment sz ENOMEM memptr) w)\<lparr>errno := ENOMEM\<rparr>,
              ENOMEM, memptr)
        else ((record_call (Posix_memalign alignment sz 0 base) w)
                \<lparr>blocks := (blocks w)(base \<mapsto> sz), brk := base + sz\<rparr>, 0, base))"

definition free :: "world \<Rightarrow> nat \<Rightarrow> world" where
  "free w p = (record_call (Free p) w)\<lparr>blocks := (blocks w)(p := None)\<rparr>"

text \<open>
  \<open>read(fd, buf, count)\<close> as Linux does it: \<open>-1\<close> with \<open>errno = EBADF\<close> on a descriptor
  that is not open; \<open>-1\<close> with \<open>errno = EFAULT\<close>, before anything is read, when the
  \<open>count\<close> bytes at \<open>buf\<close> do not lie in user space; \<open>-1\<close> with the pending error on a
  failing descriptor; otherwise it transfers the next bytes of the stream, at most \<open>count\<close>
  and at most \<open>MAX_RW_COUNT\<close> of them, and returns how many. The bytes are stored from \<open>buf\<close> on; the result is \<open>None\<close> when
  there are bytes to store and they do not fit in the live block at \<open>buf\<close>, which in C
  overwrites the heap.
\<close>

definition read ::
  "world \<Rightarrow> cint \<Rightarrow> nat \<Rightarrow> nat \<Rightarrow> (world \<times> int \<times> byte list) option" where
  "read w fd buf count =
     (case fds w fd of
        None \<Rightarrow> Some ((record_call (Read fd buf count (- 1)) w)\<lparr>errno := EBADF\<rparr>, - 1, [])
      | Some st \<Rightarrow>
          if \<not> access_ok buf count
          then Some ((record_call (Read fd buf count (- 1)) w)\<lparr>errno := EFAULT\<rparr>, - 1, [])
          else
            (case st of
               Failing e bs \<Rightarrow>
                 Some ((record_call (Read fd buf count (- 1)) w)
                         \<lparr>errno := e, fds := (fds w)(fd \<mapsto> Readable bs)\<rparr>, - 1, [])
             | Readable bs \<Rightarrow>
                 let n = min (min count MAX_RW_COUNT) (length bs) in
                 if n \<noteq> 0 \<and> (case blocks w buf of None \<Rightarrow> True | Some sz \<Rightarrow> sz < n)
                 then None
                 else Some ((record_call (Read fd buf count (int n)) w)
                              \<lparr>fds := (fds w)(fd \<mapsto> Readable (drop n bs))\<rparr>,
                            int n, take n bs)))"

definition enter_blocking_section :: "world \<Rightarrow> world" where
  "enter_blocking_section w = record_call Enter_blocking_section w"

definition leave_blocking_section :: "world \<Rightarrow> world" where
  "leave_blocking_section w = record_call Leave_blocking_section w"

text \<open>\<open>uerror(cmdname, arg)\<close> raises the OCaml exception \<open>Unix_error\<close> with the current
  value of \<open>errno\<close>. The other failure stands for a C execution without a defined
  result.\<close>

datatype failure = Unix_error cint string string | Undefined_behaviour

definition uerror :: "world \<Rightarrow> string \<Rightarrow> string \<Rightarrow> failure" where
  "uerror w cmdname arg = Unix_error (errno w) cmdname arg"

text \<open>
  \<open>memmove(&Byte(buf, ofs), src, n)\<close> on an OCaml buffer given as its bytes: the \<open>n\<close>
  bytes from position \<open>ofs\<close> on are replaced by the first \<open>n\<close> bytes at \<open>src\<close>, which
  holds \<open>staged\<close>. There is no defined result when a byte outside the buffer would be
  written or a byte of the staging block that was never stored would be copied.
\<close>

definition memmove ::
  "world \<Rightarrow> byte list \<Rightarrow> int \<Rightarrow> nat \<Rightarrow> byte list \<Rightarrow> nat \<Rightarrow> (world \<times> byte list) option" where
  "memmove w buf ofs src staged n =
     (let w' = record_call (Memmove ofs src n) w in
      if n = 0 then Some (w', buf)
      else if ofs < 0 \<or> int (length buf) < ofs + int n \<or> length staged < n then None
      else Some (w', take (nat ofs) buf @ take n staged @ drop (nat ofs + n) buf))"

subsection \<open>The stub\<close>

text \<open>
  The result is the world after the call, the OCaml buffer after the call and either the
  failure raised or the OCaml integer returned. \<open>Begin_root\<close> and \<open>End_roots\<close> register
  \<open>buf\<close> with the garbage collector and change nothing that is modelled.
\<close>

definition stub_stdext_unix_read ::
  "world \<Rightarrow> int \<Rightarrow> byte list \<Rightarrow> int \<Rightarrow> int \<Rightarrow> world \<times> byte list \<times> (failure + int)" where
  "stub_stdext_unix_read w fd buf ofs len =
     (let numbytes = Long_val len;
          (w1, ret, iobuf) = posix_memalign w NULL BLOCK_SIZE (unat (size_t_of_long numbytes))
      in
      if ret \<noteq> 0 then (w1, buf, Inl (uerror w1 ''read/posix_memalign'' Nothing))
      else
        let w2 = enter_blocking_section w1 in
        case read w2 (Int_val fd) iobuf (unat (size_t_of_int (int_of_long numbytes))) of
          None \<Rightarrow> (w2, buf, Inl Undefined_behaviour)
        | Some (w3, r, staged) \<Rightarrow>
            let ret = (word_of_int r :: cint);
                w4 = leave_blocking_section w3
            in
            if ret = - 1 then (w4, buf, Inl (uerror w4 ''read'' Nothing))
            else
              (case memmove w4 buf (sint (Long_val ofs)) iobuf staged
                      (unat (size_t_of_int ret)) of
                 None \<Rightarrow> (w4, buf, Inl Undefined_behaviour)
               | Some (w5, buf') \<Rightarrow> (free w5 iobuf, buf', Inr (Val_int ret))))"

subsection \<open>Quantities of one call\<close>

text \<open>
  Names for what the stub computes from its arguments, used to state its behaviour: the
  size it asks the allocator for, the count it passes to \<open>read\<close>, the address the
  allocator hands out next, whether the allocation fails, the world after a successful
  allocation, and the number of bytes one \<open>read\<close> transfers from a stream.
\<close>

definition alloc_size :: "int \<Rightarrow> nat" where
  "alloc_size len = unat (size_t_of_long (Long_val len))"

definition read_count :: "int \<Rightarrow> nat" where
  "read_count len = unat (size_t_of_int (int_of_long (Long_val len)))"

definition staging_base :: "world \<Rightarrow> nat" where
  "staging_base w = align_up (Suc (brk w)) BLOCK_SIZE"

definition out_of_memory :: "world \<Rightarrow> int \<Rightarrow> bool" where
  "out_of_memory w len \<longleftrightarrow>
     PTRDIFF_MAX < alloc_size len \<or> mem_limit w < staging_base w + alloc_size len \<or>
     TASK_SIZE_MAX < staging_base w + alloc_size len"

definition transfer :: "int \<Rightarrow> byte list \<Rightarrow> nat" where
  "transfer len bs = min (min (read_count len) MAX_RW_COUNT) (length bs)"

definition allocated :: "world \<Rightarrow> int \<Rightarrow> world" where
  "allocated w len =
     (record_call (Posix_memalign BLOCK_SIZE (alloc_size len) 0 (staging_base w)) w)
       \<lparr>blocks := (blocks w)(staging_base w \<mapsto> alloc_size len),
        brk := staging_base w + alloc_size len\<rparr>"

text \<open>The world after the \<open>read\<close> of a stream and \<open>leave_blocking_section\<close>, and the
  world after the copy and the \<open>free\<close>.\<close>

definition read_done :: "world \<Rightarrow> int \<Rightarrow> int \<Rightarrow> byte list \<Rightarrow> world" where
  "read_done w fd len bs =
     (allocated w len)
       \<lparr>fds := (fds w)(Int_val fd \<mapsto> Readable (drop (transfer len bs) bs)),
        calls := calls (allocated w len) @
          [Enter_blocking_section,
           Read (Int_val fd) (staging_base w) (read_count len) (int (transfer len bs)),
           Leave_blocking_section]\<rparr>"

definition copy_done :: "world \<Rightarrow> int \<Rightarrow> int \<Rightarrow> int \<Rightarrow> byte list \<Rightarrow> world" where
  "copy_done w fd ofs len bs =
     free (record_call (Memmove (sint (Long_val ofs)) (staging_base w) (transfer len bs))
             (read_done w fd len bs))
          (staging_base w)"

text \<open>Whether the copy of \<open>k\<close> bytes to offset \<open>ofs\<close> stays inside the buffer, the
  buffer after the copy, the world after an allocation that failed and the world after a
  \<open>read\<close> that failed.\<close>

definition in_bounds :: "byte list \<Rightarrow> int \<Rightarrow> nat \<Rightarrow> bool" where
  "in_bounds buf ofs k \<longleftrightarrow> k = 0 \<or> (0 \<le> ofs \<and> ofs + int k \<le> int (length buf))"

definition copied :: "byte list \<Rightarrow> int \<Rightarrow> byte list \<Rightarrow> byte list" where
  "copied buf ofs staged =
     (if staged = [] then buf
      else take (nat ofs) buf @ staged @ drop (nat ofs + length staged) buf)"

definition alloc_failed :: "world \<Rightarrow> int \<Rightarrow> world" where
  "alloc_failed w len =
     (record_call (Posix_memalign BLOCK_SIZE (alloc_size len) ENOMEM NULL) w)\<lparr>errno := ENOMEM\<rparr>"

definition efault_done :: "world \<Rightarrow> int \<Rightarrow> int \<Rightarrow> world" where
  "efault_done w fd len =
     (allocated w len)
       \<lparr>errno := EFAULT,
        calls := calls (allocated w len) @
          [Enter_blocking_section, Read (Int_val fd) (staging_base w) (read_count len) (- 1),
           Leave_blocking_section]\<rparr>"

definition bad_fd_done :: "world \<Rightarrow> int \<Rightarrow> int \<Rightarrow> world" where
  "bad_fd_done w fd len =
     (allocated w len)
       \<lparr>errno := EBADF,
        calls := calls (allocated w len) @
          [Enter_blocking_section, Read (Int_val fd) (staging_base w) (read_count len) (- 1),
           Leave_blocking_section]\<rparr>"

definition failing_done :: "world \<Rightarrow> int \<Rightarrow> int \<Rightarrow> cint \<Rightarrow> byte list \<Rightarrow> world" where
  "failing_done w fd len e bs =
     (allocated w len)
       \<lparr>errno := e, fds := (fds w)(Int_val fd \<mapsto> Readable bs),
        calls := calls (allocated w len) @
          [Enter_blocking_section, Read (Int_val fd) (staging_base w) (read_count len) (- 1),
           Leave_blocking_section]\<rparr>"

subsection \<open>Worlds to run the stub in\<close>

text \<open>A world with one megabyte of memory, nothing allocated and no descriptor open, and
  the opening of a descriptor on a stream of bytes.\<close>

definition world0 :: world where
  "world0 = \<lparr>errno = 0, blocks = Map.empty, brk = 0, mem_limit = 1048576,
             fds = Map.empty, calls = []\<rparr>"

definition open_stream :: "cint \<Rightarrow> byte list \<Rightarrow> world \<Rightarrow> world" where
  "open_stream fd bs w = w\<lparr>fds := (fds w)(fd \<mapsto> Readable bs)\<rparr>"

section \<open>Properties\<close>

subsection \<open>The integer conversions\<close>

lemma sint_low: "sint (ucast (x :: 64 word) :: 32 word) = (uint x + 2 ^ 31) mod 2 ^ 32 - 2 ^ 31"
proof -
  have "sint (word_of_int (uint x) :: 32 word) = (uint x + 2 ^ 31) mod 2 ^ 32 - 2 ^ 31"
    by (simp only: int_word_sint len_num1 len_bit0 One_nat_def) simp
  then show ?thesis by simp
qed

lemma count_int: "uint (size_t_of_int (int_of_long x)) = ((uint x + 2 ^ 31) mod 2 ^ 32 - 2 ^ 31) mod 2 ^ 64"
proof -
  have "uint (word_of_int (sint (ucast x :: 32 word)) :: 64 word) = sint (ucast x :: 32 word) mod 2 ^ 64"
    by (simp only: uint_word_of_int) simp
  then show ?thesis
    unfolding size_t_of_int_def int_of_long_def scast_eq by (simp only: sint_low)
qed

lemma count_cases:
  fixes x :: long
  defines "low \<equiv> uint x mod 2 ^ 32"
  shows "uint (size_t_of_int (int_of_long x)) = (if low < 2 ^ 31 then low else low + (2 ^ 64 - 2 ^ 32))"
proof -
  have low: "0 \<le> low" "low < 2 ^ 32" by (simp_all add: low_def)
  have "(uint x + 2 ^ 31) mod 2 ^ 32 = (low + 2 ^ 31) mod 2 ^ 32"
    unfolding low_def by (simp add: mod_add_left_eq)
  then have e: "uint (size_t_of_int (int_of_long x)) = ((low + 2 ^ 31) mod 2 ^ 32 - 2 ^ 31) mod 2 ^ 64"
    by (simp add: count_int)
  show ?thesis
  proof (cases "low < 2 ^ 31")
    case True
    then have "(low + 2 ^ 31) mod 2 ^ 32 = low + 2 ^ 31" using low by simp
    then show ?thesis using e True low by simp
  next
    case False
    have "(low + 2 ^ 31 - 2 ^ 32) mod 2 ^ 32 = low + 2 ^ 31 - 2 ^ 32"
      using low False by (intro mod_pos_pos_trivial) simp_all
    then have "(low + 2 ^ 31) mod 2 ^ 32 = low + 2 ^ 31 - 2 ^ 32"
      by (simp only: minus_mod_self2)
    then have "uint (size_t_of_int (int_of_long x)) = (low - 2 ^ 32) mod 2 ^ 64"
      using e by simp
    also have "\<dots> = (low - 2 ^ 32 + 2 ^ 64) mod 2 ^ 64"
      by (simp only: mod_add_self2)
    also have "\<dots> = low - 2 ^ 32 + 2 ^ 64" 
      using low False by (intro mod_pos_pos_trivial) simp_all
    finally show ?thesis using False by simp
  qed
qed

lemma count_le: "min (unat (size_t_of_int (int_of_long x))) MAX_RW_COUNT \<le> unat x"
proof -
  define low where "low = uint x mod 2 ^ 32"
  define c where "c = uint (size_t_of_int (int_of_long x))"
  have low0: "0 \<le> low" unfolding low_def by (rule pos_mod_sign) simp
  have lowx: "low \<le> uint x" unfolding low_def by (rule zmod_le_nonneg_dividend) simp
  have c: "c = (if low < 2 ^ 31 then low else low + (2 ^ 64 - 2 ^ 32))"
    unfolding low_def c_def by (rule count_cases)
  have cu: "unat (size_t_of_int (int_of_long x)) = nat c"
    unfolding c_def by (rule unat_eq_nat_uint)
  have xu: "unat x = nat (uint x)" by (rule unat_eq_nat_uint)
  show ?thesis
  proof (cases "low < 2 ^ 31")
    case True
    then have "c = low" using c by (simp only: if_True)
    then have "c \<le> uint x" using lowx by (simp only:)
    then have "nat c \<le> nat (uint x)" by (rule nat_mono)
    then show ?thesis unfolding cu xu by (rule min.coboundedI1)
  next
    case False
    then have "(2 :: int) ^ 31 \<le> uint x" using lowx by linarith
    moreover have "int MAX_RW_COUNT \<le> 2 ^ 31" by (simp add: MAX_RW_COUNT_def)
    ultimately have "int MAX_RW_COUNT \<le> uint x" by (rule order_trans[rotated])
    then have "MAX_RW_COUNT \<le> nat (uint x)" by linarith
    then show ?thesis unfolding cu xu by (rule min.coboundedI2)
  qed
qed

lemma count_small:
  assumes "0 \<le> len" "len < 2 ^ 31"
  shows "unat (size_t_of_int (int_of_long (Long_val len))) = nat len"
proof -
  have u: "uint (Long_val len) = len" using assms by (simp add: Long_val_def uint_word_of_int)
  have "uint (Long_val len) mod 2 ^ 32 = len" using assms by (simp add: u)
  then have "uint (size_t_of_int (int_of_long (Long_val len))) = len"
    using assms by (simp add: count_cases)
  then show ?thesis by (simp add: unat_eq_nat_uint)
qed

lemma unat_Long_val: "0 \<le> len \<Longrightarrow> len < 2 ^ 64 \<Longrightarrow> unat (size_t_of_long (Long_val len)) = nat len"
  by (simp add: Long_val_def size_t_of_long_def unat_eq_nat_uint uint_word_of_int)

lemma unat_Long_val_le: "0 \<le> len \<Longrightarrow> unat (size_t_of_long (Long_val len)) \<le> nat len"
  by (simp add: Long_val_def size_t_of_long_def unat_eq_nat_uint uint_word_of_int zmod_le_nonneg_dividend nat_mono)

lemma sint_Long_val: "is_ocaml_int x \<Longrightarrow> sint (Long_val x) = x"
  unfolding Long_val_def is_ocaml_int_def
  by (simp add: int_word_sint)

text \<open>What the stub does with the value \<open>read\<close> returned.\<close>

lemma ret_of_count:
  assumes "n \<le> MAX_RW_COUNT"
  shows "(word_of_nat n :: cint) \<noteq> - 1"
    and "unat (size_t_of_int (word_of_nat n)) = n"
    and "Val_int (word_of_nat n) = int n"
proof -
  have n: "int n < 2 ^ 31" using assms by (simp add: MAX_RW_COUNT_def)
  have "sint (word_of_int (int n) :: cint) = (int n + 2 ^ 31) mod 2 ^ 32 - 2 ^ 31"
    by (simp only: int_word_sint len_num1 len_bit0 One_nat_def) simp
  also have "\<dots> = int n" using n by simp
  finally have s: "sint (word_of_nat n :: cint) = int n" by simp
  show "Val_int (word_of_nat n) = int n" by (simp add: Val_int_def s)
  show "(word_of_nat n :: cint) \<noteq> - 1"
  proof
    assume "(word_of_nat n :: cint) = - 1"
    then have "sint (word_of_nat n :: cint) = sint (- 1 :: cint)" by simp
    then show False using s by simp
  qed
  have "uint (word_of_int (sint (word_of_nat n :: cint)) :: 64 word) = sint (word_of_nat n :: cint) mod 2 ^ 64"
    by (simp only: uint_word_of_int) simp
  then have "uint (size_t_of_int (word_of_nat n)) = int n"
    unfolding size_t_of_int_def scast_eq s using n by simp
  then show "unat (size_t_of_int (word_of_nat n)) = n"
    by (simp add: unat_eq_nat_uint)
qed

subsection \<open>The allocator and the kernel\<close>

lemma valid_alignment_BLOCK_SIZE: "valid_alignment BLOCK_SIZE"
  by (simp add: valid_alignment_def BLOCK_SIZE_def)

lemma align_up_mod: "align_up a k mod k = 0"
  by (simp add: align_up_def)

lemma align_up_pos: "0 < k \<Longrightarrow> 0 < a \<Longrightarrow> 0 < align_up a k"
proof -
  assume k: "0 < k" and a: "0 < a"
  have "k \<le> a + k - 1" using a by simp
  then have "0 < (a + k - 1) div k" using k by (simp only: div_greater_zero_iff)
  then show ?thesis using k by (simp add: align_up_def)
qed

lemma new_calls_append: "calls w' = calls w @ es \<Longrightarrow> new_calls w w' = es"
  by (simp add: new_calls_def)

lemma transfer_le: "transfer len bs \<le> alloc_size len"
  unfolding transfer_def read_count_def alloc_size_def size_t_of_long_def
  by (rule order_trans[OF min.cobounded1 count_le])

lemma transfer_le_MAX: "transfer len bs \<le> MAX_RW_COUNT"
  unfolding transfer_def by simp

lemma stub_out_of_memory:
  assumes "out_of_memory w len"
  shows "stub_stdext_unix_read w fd buf ofs len =
    (alloc_failed w len, buf, Inl (Unix_error ENOMEM ''read/posix_memalign'' Nothing))"
  using assms
  by (simp add: stub_stdext_unix_read_def posix_memalign_def valid_alignment_BLOCK_SIZE
      out_of_memory_def alloc_size_def staging_base_def Let_def ENOMEM_def uerror_def
      record_call_def alloc_failed_def)

lemma posix_memalign_ok:
  "\<not> out_of_memory w len \<Longrightarrow>
   posix_memalign w NULL BLOCK_SIZE (alloc_size len) = (allocated w len, 0, staging_base w)"
  by (simp add: posix_memalign_def valid_alignment_BLOCK_SIZE out_of_memory_def
      staging_base_def allocated_def Let_def)

lemma posix_memalign_fail:
  "out_of_memory w len \<Longrightarrow>
   posix_memalign w NULL BLOCK_SIZE (alloc_size len) = (alloc_failed w len, ENOMEM, NULL)"
  by (simp add: posix_memalign_def valid_alignment_BLOCK_SIZE out_of_memory_def
      staging_base_def Let_def alloc_failed_def)

lemma allocated_simps:
  "errno (allocated w len) = errno w"
  "fds (allocated w len) = fds w"
  "mem_limit (allocated w len) = mem_limit w"
  "blocks (allocated w len) = (blocks w)(staging_base w \<mapsto> alloc_size len)"
  "brk (allocated w len) = staging_base w + alloc_size len"
  "calls (allocated w len) =
     calls w @ [Posix_memalign BLOCK_SIZE (alloc_size len) 0 (staging_base w)]"
  by (simp_all add: allocated_def record_call_def)

lemma stub_after_alloc:
  assumes "\<not> out_of_memory w len"
  shows "stub_stdext_unix_read w fd buf ofs len =
    (let w2 = enter_blocking_section (allocated w len) in
     case read w2 (Int_val fd) (staging_base w) (read_count len) of
       None \<Rightarrow> (w2, buf, Inl Undefined_behaviour)
     | Some (w3, r, staged) \<Rightarrow>
         let ret = (word_of_int r :: cint);
             w4 = leave_blocking_section w3
         in
         if ret = - 1 then (w4, buf, Inl (uerror w4 ''read'' Nothing))
         else
           (case memmove w4 buf (sint (Long_val ofs)) (staging_base w) staged
                   (unat (size_t_of_int ret)) of
              None \<Rightarrow> (w4, buf, Inl Undefined_behaviour)
            | Some (w5, buf') \<Rightarrow> (free w5 (staging_base w), buf', Inr (Val_int ret))))"
proof -
  have "posix_memalign w NULL BLOCK_SIZE (unat (size_t_of_long (Long_val len))) =
      (allocated w len, 0, staging_base w)"
    using posix_memalign_ok[OF assms] by (simp only: alloc_size_def)
  then show ?thesis
    unfolding stub_stdext_unix_read_def read_count_def Let_def by (simp only: prod.case) simp
qed

lemma stub_bad_fd:
  assumes "\<not> out_of_memory w len" and "fds w (Int_val fd) = None"
  shows "stub_stdext_unix_read w fd buf ofs len =
    ((allocated w len)
       \<lparr>errno := EBADF,
        calls := calls (allocated w len) @
          [Enter_blocking_section, Read (Int_val fd) (staging_base w) (read_count len) (- 1),
           Leave_blocking_section]\<rparr>,
     buf, Inl (Unix_error EBADF ''read'' Nothing))"
  using assms(2)
  by (simp add: stub_after_alloc[OF assms(1)] read_def enter_blocking_section_def
      leave_blocking_section_def record_call_def allocated_simps uerror_def Let_def)

lemma stub_efault:
  assumes "\<not> out_of_memory w len" and "fds w (Int_val fd) = Some st"
    and "\<not> access_ok (staging_base w) (read_count len)"
  shows "stub_stdext_unix_read w fd buf ofs len =
    (efault_done w fd len, buf, Inl (Unix_error EFAULT ''read'' Nothing))"
  using assms(2,3)
  by (simp add: stub_after_alloc[OF assms(1)] read_def enter_blocking_section_def
      leave_blocking_section_def record_call_def allocated_simps uerror_def Let_def
      efault_done_def)

lemma stub_failing_fd:
  assumes "\<not> out_of_memory w len" and "fds w (Int_val fd) = Some (Failing e bs)"
    and "access_ok (staging_base w) (read_count len)"
  shows "stub_stdext_unix_read w fd buf ofs len =
    ((allocated w len)
       \<lparr>errno := e, fds := (fds w)(Int_val fd \<mapsto> Readable bs),
        calls := calls (allocated w len) @
          [Enter_blocking_section, Read (Int_val fd) (staging_base w) (read_count len) (- 1),
           Leave_blocking_section]\<rparr>,
     buf, Inl (Unix_error e ''read'' Nothing))"
  using assms(2,3)
  by (simp add: stub_after_alloc[OF assms(1)] read_def enter_blocking_section_def
      leave_blocking_section_def record_call_def allocated_simps uerror_def Let_def)

lemma read_readable:
  assumes "fds w fd = Some (Readable bs)" and "blocks w p = Some sz"
    and n: "n = min (min c MAX_RW_COUNT) (length bs)" and "n \<le> sz"
    and "access_ok p c"
  shows "read w fd p c =
    Some ((record_call (Read fd p c (int n)) w)\<lparr>fds := (fds w)(fd \<mapsto> Readable (drop n bs))\<rparr>,
          int n, take n bs)"
proof -
  have "\<not> sz < n" using assms(4) by simp
  then have "read w fd p c =
    Some ((record_call (Read fd p c (int (min (min c MAX_RW_COUNT) (length bs)))) w)
            \<lparr>fds := (fds w)(fd \<mapsto> Readable (drop (min (min c MAX_RW_COUNT) (length bs)) bs))\<rparr>,
          int (min (min c MAX_RW_COUNT) (length bs)),
          take (min (min c MAX_RW_COUNT) (length bs)) bs)"
    unfolding n using assms(1,2,5) by (simp add: read_def Let_def)
  then show ?thesis by (simp only: n)
qed

lemma stub_readable_read:
  assumes "fds w (Int_val fd) = Some (Readable bs)"
    and "access_ok (staging_base w) (read_count len)"
  shows "read (enter_blocking_section (allocated w len)) (Int_val fd) (staging_base w) (read_count len) =
    Some ((allocated w len)
       \<lparr>fds := (fds w)(Int_val fd \<mapsto> Readable (drop (transfer len bs) bs)),
        calls := calls (allocated w len) @
          [Enter_blocking_section,
           Read (Int_val fd) (staging_base w) (read_count len) (int (transfer len bs))]\<rparr>,
     int (transfer len bs), take (transfer len bs) bs)"
proof -
  let ?w2 = "enter_blocking_section (allocated w len)"
  have 1: "fds ?w2 (Int_val fd) = Some (Readable bs)"
    using assms by (simp add: enter_blocking_section_def record_call_def allocated_simps)
  have 2: "blocks ?w2 (staging_base w) = Some (alloc_size len)"
    by (simp add: enter_blocking_section_def record_call_def allocated_simps)
  show ?thesis
    unfolding read_readable[OF 1 2 transfer_def transfer_le assms(2)]
    by (simp add: enter_blocking_section_def record_call_def allocated_simps)
qed

lemma transfer_le_length: "transfer len bs \<le> length bs"
  unfolding transfer_def by simp

lemma stub_readable:
  assumes mem: "\<not> out_of_memory w len"
    and fd: "fds w (Int_val fd) = Some (Readable bs)"
    and n: "n = transfer len bs"
    and ok: "access_ok (staging_base w) (read_count len)"
  shows "stub_stdext_unix_read w fd buf ofs len =
    (let w4 = (allocated w len)
           \<lparr>fds := (fds w)(Int_val fd \<mapsto> Readable (drop n bs)),
            calls := calls (allocated w len) @
              [Enter_blocking_section,
               Read (Int_val fd) (staging_base w) (read_count len) (int n),
               Leave_blocking_section]\<rparr>
     in case memmove w4 buf (sint (Long_val ofs)) (staging_base w) (take n bs) n of
          None \<Rightarrow> (w4, buf, Inl Undefined_behaviour)
        | Some (w5, buf') \<Rightarrow> (free w5 (staging_base w), buf', Inr (int n)))"
proof -
  have le: "n \<le> MAX_RW_COUNT" unfolding n by (rule transfer_le_MAX)
  note r = ret_of_count[OF le]
  show ?thesis
    unfolding stub_after_alloc[OF mem] Let_def stub_readable_read[OF fd ok] n[symmetric]
    by (simp add: r leave_blocking_section_def record_call_def split: option.split)
qed

subsection \<open>The copy and the successful call\<close>

lemma memmove_SomeD:
  assumes m: "memmove w buf ofs p staged k = Some (w5, buf')" and len: "length staged = k"
  shows "w5 = record_call (Memmove ofs p k) w"
    and "length buf' = length buf"
    and "0 < k \<Longrightarrow> 0 \<le> ofs \<and> ofs + int k \<le> int (length buf)"
    and "\<And>i. i < k \<Longrightarrow> buf' ! (nat ofs + i) = staged ! i"
    and "\<And>j. j < length buf \<Longrightarrow> int j < ofs \<or> ofs + int k \<le> int j \<Longrightarrow> buf' ! j = buf ! j"
proof -
  show "w5 = record_call (Memmove ofs p k) w"
    using m by (simp add: memmove_def Let_def split: if_splits)
  show b: "0 < k \<Longrightarrow> 0 \<le> ofs \<and> ofs + int k \<le> int (length buf)"
    using m by (simp add: memmove_def Let_def split: if_splits)
  have eq: "buf' = (if k = 0 then buf else take (nat ofs) buf @ staged @ drop (nat ofs + k) buf)"
    using m len by (auto simp add: memmove_def Let_def split: if_splits)
  show "length buf' = length buf"
  proof (cases "k = 0")
    case True then show ?thesis using eq by simp
  next
    case False
    then have "nat ofs + k \<le> length buf" using b by linarith
    then show ?thesis using eq False len by simp
  qed
  show "buf' ! (nat ofs + i) = staged ! i" if "i < k" for i
  proof -
    have k: "k \<noteq> 0" using that by simp
    then have "nat ofs \<le> length buf" using b by linarith
    then have "length (take (nat ofs) buf) = nat ofs" by simp
    then show ?thesis using eq k that len by (simp add: nth_append)
  qed
  show "buf' ! j = buf ! j" if j: "j < length buf" and out: "int j < ofs \<or> ofs + int k \<le> int j" for j
  proof (cases "k = 0")
    case True then show ?thesis using eq by simp
  next
    case False
    then have in_b: "0 \<le> ofs" "nat ofs + k \<le> length buf" using b by linarith+
    have lt: "length (take (nat ofs) buf) = nat ofs" using in_b by simp
    from out show ?thesis
    proof
      assume "int j < ofs"
      then have "j < nat ofs" by linarith
      then show ?thesis using eq False lt by (simp add: nth_append)
    next
      assume "ofs + int k \<le> int j"
      then have ge: "nat ofs + k \<le> j" using in_b by linarith
      then have "\<not> j < nat ofs" "\<not> j - nat ofs < k" by linarith+
      moreover have "nat ofs + k + (j - nat ofs - k) = j" using ge by linarith
      ultimately show ?thesis using eq False lt len j ge by (simp add: nth_append)
    qed
  qed
qed

lemma stub_success:
  assumes "stub_stdext_unix_read w fd buf ofs len = (w', buf', Inr n)"
  shows "\<exists>bs. \<not> out_of_memory w len \<and> fds w (Int_val fd) = Some (Readable bs) \<and>
    n = int (transfer len bs) \<and> w' = copy_done w fd ofs len bs \<and>
    memmove (read_done w fd len bs) buf (sint (Long_val ofs)) (staging_base w)
        (take (transfer len bs) bs) (transfer len bs) =
      Some (record_call (Memmove (sint (Long_val ofs)) (staging_base w) (transfer len bs))
              (read_done w fd len bs), buf')"
proof (cases "out_of_memory w len")
  case True
  then show ?thesis using assms by (simp add: stub_out_of_memory)
next
  case mem: False
  show ?thesis
  proof (cases "fds w (Int_val fd)")
    case None
    then show ?thesis using assms by (simp add: stub_bad_fd[OF mem])
  next
    case (Some st)
    show ?thesis
    proof (cases "access_ok (staging_base w) (read_count len)")
      case False
      then show ?thesis using assms Some by (simp add: stub_efault[OF mem])
    next
      case ok: True
      show ?thesis
      proof (cases st)
        case (Failing e bs)
        then show ?thesis using assms Some by (simp add: stub_failing_fd[OF mem _ ok])
      next
        case (Readable bs)
        then have fd: "fds w (Int_val fd) = Some (Readable bs)" using Some by simp
      let ?m = "memmove (read_done w fd len bs) buf (sint (Long_val ofs)) (staging_base w)
        (take (transfer len bs) bs) (transfer len bs)"
      have st: "stub_stdext_unix_read w fd buf ofs len =
         (case ?m of None \<Rightarrow> (read_done w fd len bs, buf, Inl Undefined_behaviour)
          | Some (w5, buf') \<Rightarrow> (free w5 (staging_base w), buf', Inr (int (transfer len bs))))"
        unfolding stub_readable[OF mem fd refl ok] Let_def read_done_def ..
      show ?thesis
      proof (cases ?m)
        case None
        then show ?thesis using assms st by simp
      next
        case (Some r)
        obtain w5 b5 where r: "r = (w5, b5)" by (cases r)
        have len: "length (take (transfer len bs) bs) = transfer len bs"
          using transfer_le_length[of len bs] by simp
        have w5: "w5 = record_call (Memmove (sint (Long_val ofs)) (staging_base w) (transfer len bs))
              (read_done w fd len bs)"
          using memmove_SomeD(1)[OF Some[unfolded r] len] .
        show ?thesis using assms st Some r w5 fd mem by (simp add: copy_done_def)
      qed
      qed
    qed
  qed
qed

lemma copy_done_simps:
  "fds (copy_done w fd ofs len bs) = (fds w)(Int_val fd \<mapsto> Readable (drop (transfer len bs) bs))"
  "errno (copy_done w fd ofs len bs) = errno w"
  "blocks (copy_done w fd ofs len bs) = (blocks w)(staging_base w := None)"
  "calls (copy_done w fd ofs len bs) = calls w @
     [Posix_memalign BLOCK_SIZE (alloc_size len) 0 (staging_base w),
      Enter_blocking_section,
      Read (Int_val fd) (staging_base w) (read_count len) (int (transfer len bs)),
      Leave_blocking_section,
      Memmove (sint (Long_val ofs)) (staging_base w) (transfer len bs),
      Free (staging_base w)]"
  by (simp_all add: copy_done_def read_done_def free_def record_call_def allocated_simps)

subsection \<open>The outcomes of a call\<close>

text \<open>A call ends in one of five ways: the allocation fails; the descriptor is not open;
  the descriptor's read fails; the bytes read do not fit in the buffer at the offset; the
  bytes are copied and their number returned.\<close>

lemma memmove_eq:
  assumes "length staged = k"
  shows "memmove w buf ofs p staged k =
    (if in_bounds buf ofs k then Some (record_call (Memmove ofs p k) w, copied buf ofs staged)
     else None)"
  using assms by (auto simp add: memmove_def in_bounds_def copied_def Let_def)

lemma stub_cases [case_names nomem badfd efault failing oob ok]:
  obtains
    "out_of_memory w len"
    "stub_stdext_unix_read w fd buf ofs len =
       (alloc_failed w len, buf, Inl (Unix_error ENOMEM ''read/posix_memalign'' Nothing))"
  | "\<not> out_of_memory w len" "fds w (Int_val fd) = None"
    "stub_stdext_unix_read w fd buf ofs len =
       (bad_fd_done w fd len, buf, Inl (Unix_error EBADF ''read'' Nothing))"
  | st where "\<not> out_of_memory w len" "fds w (Int_val fd) = Some st"
    "\<not> access_ok (staging_base w) (read_count len)"
    "stub_stdext_unix_read w fd buf ofs len =
       (efault_done w fd len, buf, Inl (Unix_error EFAULT ''read'' Nothing))"
  | e bs where "\<not> out_of_memory w len" "fds w (Int_val fd) = Some (Failing e bs)"
    "access_ok (staging_base w) (read_count len)"
    "stub_stdext_unix_read w fd buf ofs len =
       (failing_done w fd len e bs, buf, Inl (Unix_error e ''read'' Nothing))"
  | bs where "\<not> out_of_memory w len" "fds w (Int_val fd) = Some (Readable bs)"
    "access_ok (staging_base w) (read_count len)"
    "\<not> in_bounds buf (sint (Long_val ofs)) (transfer len bs)"
    "stub_stdext_unix_read w fd buf ofs len =
       (read_done w fd len bs, buf, Inl Undefined_behaviour)"
  | bs where "\<not> out_of_memory w len" "fds w (Int_val fd) = Some (Readable bs)"
    "access_ok (staging_base w) (read_count len)"
    "in_bounds buf (sint (Long_val ofs)) (transfer len bs)"
    "stub_stdext_unix_read w fd buf ofs len =
       (copy_done w fd ofs len bs,
        copied buf (sint (Long_val ofs)) (take (transfer len bs) bs),
        Inr (int (transfer len bs)))"
proof (cases "out_of_memory w len")
  case True
  then show ?thesis using that(1) by (simp add: stub_out_of_memory)
next
  case mem: False
  show ?thesis
  proof (cases "fds w (Int_val fd)")
    case None
    then show ?thesis using that(2) mem by (simp add: stub_bad_fd bad_fd_done_def)
  next
    case (Some st)
    show ?thesis
    proof (cases "access_ok (staging_base w) (read_count len)")
      case False
      then show ?thesis using that(3) mem Some by (simp add: stub_efault)
    next
      case ok: True
      show ?thesis
      proof (cases st)
        case (Failing e bs)
        then show ?thesis using that(4) mem Some ok
          by (simp add: stub_failing_fd failing_done_def)
      next
        case (Readable bs)
        then have fd: "fds w (Int_val fd) = Some (Readable bs)" using Some by simp
        have len: "length (take (transfer len bs) bs) = transfer len bs"
          using transfer_le_length[of len bs] by simp
        have st: "stub_stdext_unix_read w fd buf ofs len =
           (case memmove (read_done w fd len bs) buf (sint (Long_val ofs)) (staging_base w)
                   (take (transfer len bs) bs) (transfer len bs) of
              None \<Rightarrow> (read_done w fd len bs, buf, Inl Undefined_behaviour)
            | Some (w5, buf') \<Rightarrow> (free w5 (staging_base w), buf', Inr (int (transfer len bs))))"
          unfolding stub_readable[OF mem fd refl ok] Let_def read_done_def ..
        show ?thesis
        proof (cases "in_bounds buf (sint (Long_val ofs)) (transfer len bs)")
          case True
          then show ?thesis using that(6)[OF mem fd ok] st
            by (simp add: memmove_eq[OF len] copy_done_def)
        next
          case False
          then show ?thesis using that(5)[OF mem fd ok] st
            by (simp add: memmove_eq[OF len])
        qed
      qed
    qed
  qed
qed

lemma done_calls:
  "new_calls w (alloc_failed w len) = [Posix_memalign BLOCK_SIZE (alloc_size len) ENOMEM NULL]"
  "new_calls w (efault_done w fd len) =
     [Posix_memalign BLOCK_SIZE (alloc_size len) 0 (staging_base w), Enter_blocking_section,
      Read (Int_val fd) (staging_base w) (read_count len) (- 1), Leave_blocking_section]"
  "new_calls w (bad_fd_done w fd len) =
     [Posix_memalign BLOCK_SIZE (alloc_size len) 0 (staging_base w), Enter_blocking_section,
      Read (Int_val fd) (staging_base w) (read_count len) (- 1), Leave_blocking_section]"
  "new_calls w (failing_done w fd len e bs) =
     [Posix_memalign BLOCK_SIZE (alloc_size len) 0 (staging_base w), Enter_blocking_section,
      Read (Int_val fd) (staging_base w) (read_count len) (- 1), Leave_blocking_section]"
  "new_calls w (read_done w fd len bs) =
     [Posix_memalign BLOCK_SIZE (alloc_size len) 0 (staging_base w), Enter_blocking_section,
      Read (Int_val fd) (staging_base w) (read_count len) (int (transfer len bs)),
      Leave_blocking_section]"
  "new_calls w (copy_done w fd ofs len bs) =
     [Posix_memalign BLOCK_SIZE (alloc_size len) 0 (staging_base w), Enter_blocking_section,
      Read (Int_val fd) (staging_base w) (read_count len) (int (transfer len bs)),
      Leave_blocking_section,
      Memmove (sint (Long_val ofs)) (staging_base w) (transfer len bs),
      Free (staging_base w)]"
  by (simp_all add: new_calls_def record_call_def bad_fd_done_def failing_done_def read_done_def
      copy_done_simps allocated_simps alloc_failed_def efault_done_def)

lemma alloc_size_le: "0 \<le> len \<Longrightarrow> int (alloc_size len) \<le> len"
  using unat_Long_val_le[of len] unfolding alloc_size_def by linarith

lemma alloc_size_eq: "0 \<le> len \<Longrightarrow> is_ocaml_int len \<Longrightarrow> alloc_size len = nat len"
  unfolding alloc_size_def is_ocaml_int_def
  by (rule unat_Long_val) simp_all

lemma staging_base_aligned: "staging_base w mod BLOCK_SIZE = 0"
  unfolding staging_base_def by (rule align_up_mod)

lemma staging_base_not_NULL: "staging_base w \<noteq> NULL"
  using align_up_pos[of BLOCK_SIZE "Suc (brk w)"]
  by (simp add: staging_base_def NULL_def BLOCK_SIZE_def)

lemma read_count_0: "read_count 0 = 0"
  using count_small[of 0] by (simp add: read_count_def)

lemma done_errno:
  "errno (alloc_failed w len) = ENOMEM"
  "errno (bad_fd_done w fd len) = EBADF"
  "errno (efault_done w fd len) = EFAULT"
  "errno (failing_done w fd len e bs) = e"
  by (simp_all add: alloc_failed_def bad_fd_done_def efault_done_def failing_done_def)

lemma done_blocks:
  "blocks (alloc_failed w len) = blocks w"
  "blocks (bad_fd_done w fd len) = (blocks w)(staging_base w \<mapsto> alloc_size len)"
  "blocks (efault_done w fd len) = (blocks w)(staging_base w \<mapsto> alloc_size len)"
  "blocks (failing_done w fd len e bs) = (blocks w)(staging_base w \<mapsto> alloc_size len)"
  "blocks (read_done w fd len bs) = (blocks w)(staging_base w \<mapsto> alloc_size len)"
  by (simp_all add: alloc_failed_def bad_fd_done_def efault_done_def failing_done_def
      read_done_def allocated_simps record_call_def)

lemma access_ok_fits:
  assumes "\<not> out_of_memory w len" and "read_count len \<le> alloc_size len"
  shows "access_ok (staging_base w) (read_count len)"
  using assms unfolding out_of_memory_def access_ok_def by linarith

lemma read_count_alloc_size:
  assumes "0 \<le> len" and "len < 2 ^ 31"
  shows "read_count len = alloc_size len"
proof -
  have "len < 2 ^ 64" using assms(2) by (rule less_trans) simp
  then have "alloc_size len = nat len"
    unfolding alloc_size_def using assms(1) by (intro unat_Long_val)
  moreover have "read_count len = nat len"
    unfolding read_count_def using assms by (rule count_small)
  ultimately show ?thesis by simp
qed

subsection \<open>The count passed to read, and the block after a failed read\<close>

text \<open>Below \<open>2^31\<close> the count passed to \<open>read\<close> is the length. After a \<open>read\<close> that
  returned \<open>-1\<close>, on whatever descriptor and in whatever world, the staging block is still
  allocated and \<open>free\<close> has not been called.\<close>

lemma read_count_small: "0 \<le> len \<Longrightarrow> len < 2 ^ 31 \<Longrightarrow> read_count len = nat len"
  unfolding read_count_def by (rule count_small)

lemma read_error_keeps_block:
  assumes "stub_stdext_unix_read w fd buf ofs len = (w', buf', res)"
    and "Read f p c (- 1) \<in> set (new_calls w w')"
  shows "res = Inl (Unix_error (errno w') ''read'' Nothing) \<and>
         p = staging_base w \<and> blocks w' p = Some (alloc_size len) \<and>
         Free p \<notin> set (new_calls w w')"
proof (cases rule: stub_cases[where w=w and len=len and fd=fd and buf=buf and ofs=ofs])
  case nomem
  then show ?thesis using assms by (simp add: done_calls)
next
  case badfd
  then show ?thesis using assms by (auto simp add: done_calls done_errno done_blocks)
next
  case (efault st)
  then show ?thesis using assms by (auto simp add: done_calls done_errno done_blocks)
next
  case (failing e bs)
  then show ?thesis using assms by (auto simp add: done_calls done_errno done_blocks)
next
  case (oob bs)
  then show ?thesis using assms by (auto simp add: done_calls)
next
  case (ok bs)
  then show ?thesis using assms by (auto simp add: done_calls)
qed

subsection \<open>Running the stub\<close>

text \<open>The definitions to unfold when the stub is run in a given world.\<close>

lemmas eval_defs = stub_stdext_unix_read_def posix_memalign_def read_def memmove_def free_def
  enter_blocking_section_def leave_blocking_section_def record_call_def uerror_def
  valid_alignment_def align_up_def Long_val_def Int_val_def Val_int_def int_of_long_def
  size_t_of_int_def size_t_of_long_def BLOCK_SIZE_def NULL_def Nothing_def PTRDIFF_MAX_def
  MAX_RW_COUNT_def TASK_SIZE_MAX_def access_ok_def EBADF_def ENOMEM_def EINTR_def EFAULT_def
  EINVAL_def new_calls_def world0_def open_stream_def Let_def

section \<open>The claims\<close>

text \<open>
  C1. When \<open>read\<close> reports an error, the staging block is released before the error
  reaches the caller. The code does not do that: \<open>uerror("read", Nothing)\<close> raises before
  \<open>free(iobuf)\<close> is reached. On a descriptor that is not open, with four bytes asked for,
  the call raises \<open>Unix_error (EBADF, "read", "")\<close>, no \<open>free\<close> is among the calls made,
  and the block handed out at address 512 is still live afterwards.
\<close>

theorem C1_read_error_leaks_staging_block:
  "(case stub_stdext_unix_read world0 3 [0, 0, 0, 0] 0 4 of
      (w', buf', res) \<Rightarrow>
        res = Inl (Unix_error EBADF ''read'' Nothing) \<and>
        new_calls world0 w' =
          [Posix_memalign 512 4 0 512, Enter_blocking_section, Read 3 512 4 (- 1),
           Leave_blocking_section] \<and>
        blocks w' 512 = Some 4)"
  by (simp add: eval_defs)

text \<open>
  C2. For every non-negative length, the count passed to \<open>read\<close> is that length. The code
  passes \<open>(int) numbytes\<close>, the low 32 bits of the length, while the allocation just before
  takes the whole of it. With length \<open>2^32\<close> on a descriptor that has three bytes to
  deliver, the block allocated has \<open>4294967296\<close> bytes, the count passed to \<open>read\<close> is
  0, nothing is read and the call returns 0.
\<close>

theorem C2_count_truncated:
  "(case stub_stdext_unix_read (open_stream 3 [1, 2, 3] (world0\<lparr>mem_limit := 2 ^ 40\<rparr>)) 3 buf 0
           4294967296 of
      (w', buf', res) \<Rightarrow>
        res = Inr 0 \<and> buf' = buf \<and>
        new_calls (open_stream 3 [1, 2, 3] (world0\<lparr>mem_limit := 2 ^ 40\<rparr>)) w' =
          [Posix_memalign 512 4294967296 0 512, Enter_blocking_section, Read 3 512 0 0,
           Leave_blocking_section, Memmove 0 512 0, Free 512] \<and>
        fds w' 3 = Some (Readable [1, 2, 3]))"
  by (simp add: eval_defs)

text \<open>
  C3. When the allocation fails, the call fails with the error named
  \<open>read/posix_memalign\<close> that carries the allocator's error code, and nothing is released.
  Whenever \<open>posix_memalign\<close> returns a code \<open>e\<close> other than 0, the call raises
  \<open>Unix_error (e, "read/posix_memalign", "")\<close>: \<open>e\<close> is \<open>ENOMEM\<close>, which the allocator has
  also left in \<open>errno\<close>, where \<open>uerror\<close> takes it from. That \<open>posix_memalign\<close> is the only
  call made, so nothing is read, copied or freed; the blocks are those from before the
  call and the buffer is as it was.
\<close>

theorem C3_allocation_failure:
  assumes "posix_memalign w NULL BLOCK_SIZE (alloc_size len) = (w1, e, p)" and "e \<noteq> 0"
  shows "stub_stdext_unix_read w fd buf ofs len =
           (w1, buf, Inl (Unix_error e ''read/posix_memalign'' Nothing)) \<and>
         e = ENOMEM \<and> errno w1 = e \<and> blocks w1 = blocks w \<and>
         new_calls w w1 = [Posix_memalign BLOCK_SIZE (alloc_size len) e NULL]"
proof (cases "out_of_memory w len")
  case True
  then have "w1 = alloc_failed w len" "e = ENOMEM"
    using assms(1) by (simp_all add: posix_memalign_fail)
  then show ?thesis using True
    by (simp add: stub_out_of_memory done_calls done_errno done_blocks)
next
  case False
  then show ?thesis using assms by (simp add: posix_memalign_ok)
qed

theorem C3_allocation_failure_witness:
  "posix_memalign (world0\<lparr>mem_limit := 256\<rparr>) NULL BLOCK_SIZE (alloc_size 4) =
     (fst (posix_memalign (world0\<lparr>mem_limit := 256\<rparr>) NULL BLOCK_SIZE (alloc_size 4)),
      ENOMEM, NULL) \<and>
   ENOMEM \<noteq> 0 \<and>
   snd (stub_stdext_unix_read (world0\<lparr>mem_limit := 256\<rparr>) 3 [1, 2, 3, 4] 0 4) =
     ([1, 2, 3, 4], Inl (Unix_error ENOMEM ''read/posix_memalign'' Nothing))"
proof -
  have h1: "posix_memalign (world0\<lparr>mem_limit := 256\<rparr>) NULL BLOCK_SIZE (alloc_size 4) =
     (fst (posix_memalign (world0\<lparr>mem_limit := 256\<rparr>) NULL BLOCK_SIZE (alloc_size 4)),
      ENOMEM, NULL)"
    by (simp add: alloc_size_def eval_defs)
  have h2: "ENOMEM \<noteq> 0" by (simp add: ENOMEM_def)
  have "stub_stdext_unix_read (world0\<lparr>mem_limit := 256\<rparr>) 3 [1, 2, 3, 4] 0 4 =
     (fst (posix_memalign (world0\<lparr>mem_limit := 256\<rparr>) NULL BLOCK_SIZE (alloc_size 4)),
      [1, 2, 3, 4], Inl (Unix_error ENOMEM ''read/posix_memalign'' Nothing))"
    using C3_allocation_failure[OF h1 h2] by (rule conjunct1)
  then have "snd (stub_stdext_unix_read (world0\<lparr>mem_limit := 256\<rparr>) 3 [1, 2, 3, 4] 0 4) =
     ([1, 2, 3, 4], Inl (Unix_error ENOMEM ''read/posix_memalign'' Nothing))"
    by (simp only: snd_conv)
  then show ?thesis using h1 h2 by blast
qed

text \<open>
  C4. After a successful call returning \<open>n\<close>, the bytes of the buffer from \<open>ofs\<close> to
  \<open>ofs + n\<close> are the next \<open>n\<close> bytes of the descriptor's stream, in order, the stream has
  advanced by \<open>n\<close>, and every other byte of the buffer is as it was; nothing is zeroed after
  a short read.
\<close>

theorem C4_copy_exact:
  assumes "is_ocaml_int ofs"
    and "stub_stdext_unix_read w fd buf ofs len = (w', buf', Inr n)"
  shows "\<exists>bs. fds w (Int_val fd) = Some (Readable bs) \<and>
           0 \<le> n \<and> nat n \<le> length bs \<and>
           fds w' (Int_val fd) = Some (Readable (drop (nat n) bs)) \<and>
           length buf' = length buf \<and>
           (0 < n \<longrightarrow> 0 \<le> ofs \<and> ofs + n \<le> int (length buf)) \<and>
           (\<forall>i < nat n. buf' ! (nat ofs + i) = bs ! i) \<and>
           (\<forall>j < length buf. int j < ofs \<or> ofs + n \<le> int j \<longrightarrow> buf' ! j = buf ! j)"
proof -
  from stub_success[OF assms(2)] obtain bs where
    fd: "fds w (Int_val fd) = Some (Readable bs)" and
    n: "n = int (transfer len bs)" and
    w': "w' = copy_done w fd ofs len bs" and
    m: "memmove (read_done w fd len bs) buf ofs (staging_base w)
          (take (transfer len bs) bs) (transfer len bs) =
        Some (record_call (Memmove ofs (staging_base w) (transfer len bs))
                (read_done w fd len bs), buf')"
    unfolding sint_Long_val[OF assms(1)] by blast
  let ?k = "transfer len bs"
  have k: "?k \<le> length bs" by (rule transfer_le_length)
  then have len: "length (take ?k bs) = ?k" by simp
  note mm = memmove_SomeD[OF m len]
  have "fds w' (Int_val fd) = Some (Readable (drop (nat n) bs))"
    by (simp add: w' n copy_done_simps)
  moreover have "\<forall>i < nat n. buf' ! (nat ofs + i) = bs ! i"
    using mm(4) by (simp add: n)
  moreover have "\<forall>j < length buf. int j < ofs \<or> ofs + n \<le> int j \<longrightarrow> buf' ! j = buf ! j"
    using mm(5) by (simp add: n)
  moreover have "0 < n \<longrightarrow> 0 \<le> ofs \<and> ofs + n \<le> int (length buf)"
    using mm(3) by (simp add: n)
  ultimately show ?thesis using fd k mm(2) by (simp add: n)
qed

theorem C4_copy_exact_witness:
  "is_ocaml_int 2 \<and>
   stub_stdext_unix_read (open_stream 3 [10, 20, 30] world0) 3 [1, 2, 3, 4, 5, 6] 2 4 =
     (fst (stub_stdext_unix_read (open_stream 3 [10, 20, 30] world0) 3 [1, 2, 3, 4, 5, 6] 2 4),
      [1, 2, 10, 20, 30, 6], Inr 3) \<and>
   (\<exists>bs. fds (open_stream 3 [10, 20, 30] world0) (Int_val 3) = Some (Readable bs) \<and>
      (0::int) \<le> 3 \<and> nat 3 \<le> length bs \<and>
      fds (fst (stub_stdext_unix_read (open_stream 3 [10, 20, 30] world0) 3 [1, 2, 3, 4, 5, 6] 2 4))
         (Int_val 3) = Some (Readable (drop (nat 3) bs)) \<and>
      length [1, 2, 10, 20, 30, 6 :: byte] = length [1, 2, 3, 4, 5, 6 :: byte] \<and>
      ((0::int) < 3 \<longrightarrow> (0::int) \<le> 2 \<and> (2::int) + 3 \<le> int (length [1, 2, 3, 4, 5, 6 :: byte])) \<and>
      (\<forall>i < nat 3. [1, 2, 10, 20, 30, 6 :: byte] ! (nat 2 + i) = bs ! i) \<and>
      (\<forall>j < length [1, 2, 3, 4, 5, 6 :: byte]. int j < 2 \<or> 2 + 3 \<le> int j \<longrightarrow>
         [1, 2, 10, 20, 30, 6 :: byte] ! j = [1, 2, 3, 4, 5, 6 :: byte] ! j))"
proof -
  have h1: "is_ocaml_int 2" by (simp add: is_ocaml_int_def)
  have h2: "stub_stdext_unix_read (open_stream 3 [10, 20, 30] world0) 3 [1, 2, 3, 4, 5, 6] 2 4 =
     (fst (stub_stdext_unix_read (open_stream 3 [10, 20, 30] world0) 3 [1, 2, 3, 4, 5, 6] 2 4),
      [1, 2, 10, 20, 30, 6], Inr 3)"
    by (simp add: eval_defs)
  show ?thesis by (rule conjI[OF h1 conjI[OF h2 C4_copy_exact[OF h1 h2]]])
qed

text \<open>
  C5. For every length \<open>len \<ge> 0\<close>, a successful call returns \<open>n\<close> with
  \<open>0 \<le> n \<le> len\<close>; the \<open>read\<close> of that call returned \<open>n\<close>, the copy moved \<open>n\<close> bytes,
  and no copy moves more bytes than the length or than what \<open>read\<close> returned.
\<close>

theorem C5_count_bounds:
  assumes "0 \<le> len"
    and "stub_stdext_unix_read w fd buf ofs len = (w', buf', Inr n)"
  shows "0 \<le> n \<and> n \<le> len \<and>
    (\<exists>p c. Read (Int_val fd) p c n \<in> set (new_calls w w')) \<and>
    (\<exists>p. Memmove (sint (Long_val ofs)) p (nat n) \<in> set (new_calls w w')) \<and>
    (\<forall>d p k. Memmove d p k \<in> set (new_calls w w') \<longrightarrow>
       int k \<le> len \<and> (\<forall>f q c r. Read f q c r \<in> set (new_calls w w') \<longrightarrow> int k \<le> r))"
proof (cases rule: stub_cases[where w=w and len=len and fd=fd and buf=buf and ofs=ofs])
  case (ok bs)
  have n: "n = int (transfer len bs)" and w': "w' = copy_done w fd ofs len bs"
    using ok(5) assms(2) by simp_all
  have "int (transfer len bs) \<le> int (alloc_size len)" using transfer_le[of len bs] by simp
  then have le: "int (transfer len bs) \<le> len" using alloc_size_le[OF assms(1)] by linarith
  show ?thesis using le by (simp add: n w' done_calls)
qed (use assms(2) in simp_all)

theorem C5_count_bounds_witness:
  "(0::int) \<le> 4 \<and>
   stub_stdext_unix_read (open_stream 3 [10, 20, 30] world0) 3 [1, 2, 3, 4, 5, 6] 2 4 =
     (fst (stub_stdext_unix_read (open_stream 3 [10, 20, 30] world0) 3 [1, 2, 3, 4, 5, 6] 2 4),
      [1, 2, 10, 20, 30, 6], Inr 3) \<and>
   (0::int) \<le> 3 \<and> (3::int) \<le> 4"
proof -
  have h1: "(0::int) \<le> 4" by simp
  have h2: "stub_stdext_unix_read (open_stream 3 [10, 20, 30] world0) 3 [1, 2, 3, 4, 5, 6] 2 4 =
     (fst (stub_stdext_unix_read (open_stream 3 [10, 20, 30] world0) 3 [1, 2, 3, 4, 5, 6] 2 4),
      [1, 2, 10, 20, 30, 6], Inr 3)"
    by (simp add: eval_defs)
  from C5_count_bounds[OF h1 h2] have "(0::int) \<le> 3 \<and> (3::int) \<le> 4" by blast
  with h1 h2 show ?thesis by blast
qed

text \<open>
  C6. A call on a descriptor that is not open fails with the error of \<open>read\<close> and leaves
  the buffer as it was. As stated, for every such call, this fails: the allocation comes
  first, and when it fails the error raised is the allocator's and \<open>read\<close> is never
  called. What holds: the buffer is never modified and the call always raises. When the
  allocation succeeds the calls made are \<open>posix_memalign\<close>, \<open>enter_blocking_section\<close>, the
  \<open>read\<close> that returns \<open>-1\<close> and \<open>leave_blocking_section\<close>, and the error raised is
  \<open>Unix_error (EBADF, "read", "")\<close> with the \<open>EBADF\<close> that \<open>read\<close> left in \<open>errno\<close>. When
  the allocation fails the only call made is \<open>posix_memalign\<close> and the error raised is
  \<open>Unix_error (ENOMEM, "read/posix_memalign", "")\<close>. The allocation fails exactly when
  \<open>out_of_memory\<close> holds (\<open>posix_memalign_ok\<close>, \<open>posix_memalign_fail\<close>).
\<close>

theorem C6_bad_descriptor:
  assumes "fds w (Int_val fd) = None"
    and "stub_stdext_unix_read w fd buf ofs len = (w', buf', res)"
  shows "buf' = buf \<and>
    (if out_of_memory w len
     then res = Inl (Unix_error ENOMEM ''read/posix_memalign'' Nothing) \<and>
          new_calls w w' = [Posix_memalign BLOCK_SIZE (alloc_size len) ENOMEM NULL]
     else res = Inl (Unix_error EBADF ''read'' Nothing) \<and> errno w' = EBADF \<and>
          new_calls w w' =
            [Posix_memalign BLOCK_SIZE (alloc_size len) 0 (staging_base w),
             Enter_blocking_section,
             Read (Int_val fd) (staging_base w) (read_count len) (- 1),
             Leave_blocking_section])"
proof (cases "out_of_memory w len")
  case True
  then show ?thesis using assms(2) by (auto simp add: stub_out_of_memory done_calls)
next
  case False
  have "stub_stdext_unix_read w fd buf ofs len =
      (bad_fd_done w fd len, buf, Inl (Unix_error EBADF ''read'' Nothing))"
    using stub_bad_fd[OF False assms(1)] by (simp add: bad_fd_done_def)
  then show ?thesis using assms(2) False by (auto simp add: done_calls done_errno)
qed

text \<open>The counterexample to C6 as stated: no descriptor is open and the memory does not
  suffice for the block; the error raised is the allocator's, not the one of \<open>read\<close>, and
  no \<open>read\<close> is among the calls made.\<close>

theorem C6_counterexample:
  "fds (world0\<lparr>mem_limit := 256\<rparr>) (Int_val 3) = None \<and>
   snd (snd (stub_stdext_unix_read (world0\<lparr>mem_limit := 256\<rparr>) 3 [0, 0, 0, 0] 0 4)) =
     Inl (Unix_error ENOMEM ''read/posix_memalign'' Nothing) \<and>
   snd (snd (stub_stdext_unix_read (world0\<lparr>mem_limit := 256\<rparr>) 3 [0, 0, 0, 0] 0 4)) \<noteq>
     Inl (Unix_error EBADF ''read'' Nothing) \<and>
   new_calls (world0\<lparr>mem_limit := 256\<rparr>)
     (fst (stub_stdext_unix_read (world0\<lparr>mem_limit := 256\<rparr>) 3 [0, 0, 0, 0] 0 4)) =
     [Posix_memalign 512 4 ENOMEM NULL]"
  by (simp add: eval_defs)

theorem C6_bad_descriptor_witness:
  "fds world0 (Int_val 3) = None \<and> \<not> out_of_memory world0 4 \<and>
   snd (stub_stdext_unix_read world0 3 [1, 2, 3, 4] 0 4) =
     ([1, 2, 3, 4], Inl (Unix_error EBADF ''read'' Nothing)) \<and>
   new_calls world0 (fst (stub_stdext_unix_read world0 3 [1, 2, 3, 4] 0 4)) =
     [Posix_memalign BLOCK_SIZE (alloc_size 4) 0 (staging_base world0), Enter_blocking_section,
      Read (Int_val 3) (staging_base world0) (read_count 4) (- 1), Leave_blocking_section]"
proof -
  let ?a = "stub_stdext_unix_read world0 3 [1, 2, 3, 4] 0 4"
  have h: "fds world0 (Int_val 3) = None" by (simp add: world0_def)
  have c: "?a = (fst ?a, fst (snd ?a), snd (snd ?a))" by (simp only: prod.collapse)
  have m: "\<not> out_of_memory world0 4"
    by (simp add: out_of_memory_def alloc_size_def staging_base_def eval_defs)
  from C6_bad_descriptor[OF h c] m have
    "fst (snd ?a) = [1, 2, 3, 4] \<and> snd (snd ?a) = Inl (Unix_error EBADF ''read'' Nothing) \<and>
     new_calls world0 (fst ?a) =
       [Posix_memalign BLOCK_SIZE (alloc_size 4) 0 (staging_base world0), Enter_blocking_section,
        Read (Int_val 3) (staging_base world0) (read_count 4) (- 1), Leave_blocking_section]"
    by simp
  then have "snd ?a = ([1, 2, 3, 4], Inl (Unix_error EBADF ''read'' Nothing)) \<and>
     new_calls world0 (fst ?a) =
       [Posix_memalign BLOCK_SIZE (alloc_size 4) 0 (staging_base world0), Enter_blocking_section,
        Read (Int_val 3) (staging_base world0) (read_count 4) (- 1), Leave_blocking_section]"
    by (simp only: prod_eq_iff fst_conv snd_conv)
  then show ?thesis using h m by blast
qed

text \<open>
  C7. Whenever the \<open>read\<close> of a call returns 0, the call returns 0 and the buffer is as it
  was, whatever the offset and the length. And \<open>read\<close> does return 0 when the allocation
  succeeded, the descriptor is open on a stream and either the length is 0 or the stream
  is at its end and the length is below \<open>2^31\<close>, so that the count passed to \<open>read\<close> is the
  length. (For a length whose \<open>(int)\<close> cast is negative the count passed does not fit in
  user space and that \<open>read\<close> returns \<open>-1\<close>, not 0.)
\<close>

theorem C7_zero_bytes:
  assumes "stub_stdext_unix_read w fd buf ofs len = (w', buf', res)"
  shows "(\<forall>f p c. Read f p c 0 \<in> set (new_calls w w') \<longrightarrow> res = Inr 0 \<and> buf' = buf) \<and>
    (\<forall>bs. \<not> out_of_memory w len \<and> fds w (Int_val fd) = Some (Readable bs) \<and>
          0 \<le> len \<and> len < 2 ^ 31 \<and> (len = 0 \<or> bs = []) \<longrightarrow>
          (\<exists>p c. Read (Int_val fd) p c 0 \<in> set (new_calls w w')) \<and> res = Inr 0 \<and> buf' = buf)"
proof -
  have tz: "transfer len bs = 0" if "len = 0 \<or> bs = []" for bs
    using that by (auto simp add: transfer_def read_count_0)
  have ok: "access_ok (staging_base w) (read_count len)"
    if "\<not> out_of_memory w len" "0 \<le> len" "len < 2 ^ 31"
    using that by (intro access_ok_fits) (simp_all add: read_count_alloc_size)
  show ?thesis
  proof (cases rule: stub_cases[where w=w and len=len and fd=fd and buf=buf and ofs=ofs])
    case nomem
    then show ?thesis using assms by (simp add: done_calls)
  next
    case badfd
    then show ?thesis using assms by (simp add: done_calls)
  next
    case (efault st)
    then show ?thesis using assms ok by (auto simp add: done_calls)
  next
    case (failing e bs)
    then show ?thesis using assms by (simp add: done_calls)
  next
    case (oob bs)
    then show ?thesis using assms tz[of bs] by (auto simp add: done_calls in_bounds_def)
  next
    case (ok bs)
    then show ?thesis using assms tz[of bs] by (auto simp add: done_calls copied_def)
  qed
qed

theorem C7_zero_bytes_witness:
  "Read 3 512 0 0 \<in> set (new_calls (open_stream 3 [10, 20, 30] world0)
      (fst (stub_stdext_unix_read (open_stream 3 [10, 20, 30] world0) 3 [1, 2, 3] 1 0))) \<and>
   snd (stub_stdext_unix_read (open_stream 3 [10, 20, 30] world0) 3 [1, 2, 3] 1 0) =
     ([1, 2, 3], Inr 0) \<and>
   Read 3 512 2 0 \<in> set (new_calls (open_stream 3 [] world0)
      (fst (stub_stdext_unix_read (open_stream 3 [] world0) 3 [1, 2, 3] 1 2))) \<and>
   snd (stub_stdext_unix_read (open_stream 3 [] world0) 3 [1, 2, 3] 1 2) = ([1, 2, 3], Inr 0)"
proof -
  let ?a = "stub_stdext_unix_read (open_stream 3 [10, 20, 30] world0) 3 [1, 2, 3] 1 0"
  let ?b = "stub_stdext_unix_read (open_stream 3 [] world0) 3 [1, 2, 3] 1 2"
  have a1: "?a = (fst ?a, fst (snd ?a), snd (snd ?a))" by (simp only: prod.collapse)
  have a2: "Read 3 512 0 0 \<in> set (new_calls (open_stream 3 [10, 20, 30] world0) (fst ?a))"
    by (simp add: eval_defs)
  have b1: "?b = (fst ?b, fst (snd ?b), snd (snd ?b))" by (simp only: prod.collapse)
  have b2: "Read 3 512 2 0 \<in> set (new_calls (open_stream 3 [] world0) (fst ?b))"
    by (simp add: eval_defs)
  have "snd (snd ?a) = Inr 0 \<and> fst (snd ?a) = [1, 2, 3]"
    using C7_zero_bytes[OF a1] a2 by blast
  then have a: "snd ?a = ([1, 2, 3], Inr 0)"
    by (simp only: prod_eq_iff fst_conv snd_conv)
  have "snd (snd ?b) = Inr 0 \<and> fst (snd ?b) = [1, 2, 3]"
    using C7_zero_bytes[OF b1] b2 by blast
  then have b: "snd ?b = ([1, 2, 3], Inr 0)"
    by (simp only: prod_eq_iff fst_conv snd_conv)
  show ?thesis using a b a2 b2 by blast
qed

text \<open>
  C8. Each call performs exactly one \<open>read\<close>, without retry, and what that \<open>read\<close>
  returns is final. As stated this fails for a call whose allocation fails: it performs no
  \<open>read\<close>. What holds: when \<open>posix_memalign\<close> returns an error no \<open>read\<close> is made; when
  it returns 0 and the pointer \<open>p\<close>, the one \<open>read\<close> made is the call
  \<open>read (fd, p, (int) numbytes)\<close> in the world that \<open>enter_blocking_section\<close> leaves, and
  its result \<open>r\<close> decides the call: for \<open>r = -1\<close> (an interrupted \<open>read\<close> included) the
  error raised is \<open>Unix_error\<close> with the \<open>errno\<close> that this \<open>read\<close> left and the name
  \<open>read\<close>; otherwise the call returns \<open>r\<close>, provided the \<open>r\<close> bytes fit in the buffer at
  the offset, which is the caller's duty. A descriptor whose \<open>read\<close> is interrupted gives \<open>Unix_error (EINTR, "read", "")\<close>. On a stream of the six bytes \<open>A\<close> to
  \<open>F\<close>, two calls of length 4 return 4 and then 2, the second one copying \<open>E\<close> and \<open>F\<close>
  over the first two bytes of the buffer.
\<close>

theorem C8_single_read:
  assumes "stub_stdext_unix_read w fd buf ofs len = (w', buf', res)"
  shows "(\<forall>w1 e p. posix_memalign w NULL BLOCK_SIZE (alloc_size len) = (w1, e, p) \<and> e \<noteq> 0 \<longrightarrow>
            filter is_read (new_calls w w') = []) \<and>
    (\<forall>w1 p. posix_memalign w NULL BLOCK_SIZE (alloc_size len) = (w1, 0, p) \<longrightarrow>
       (\<exists>w3 r staged.
          read (enter_blocking_section w1) (Int_val fd) p (read_count len) = Some (w3, r, staged) \<and>
          filter is_read (new_calls w w') = [Read (Int_val fd) p (read_count len) r] \<and>
          (r = - 1 \<longrightarrow> res = Inl (Unix_error (errno w3) ''read'' Nothing) \<and> buf' = buf) \<and>
          (r \<noteq> - 1 \<longrightarrow>
             (if in_bounds buf (sint (Long_val ofs)) (nat r) then res = Inr r
              else res = Inl Undefined_behaviour)) \<and>
          (\<forall>n. res = Inr n \<longrightarrow> n = r))) \<and>
    (\<forall>e bs. \<not> out_of_memory w len \<and> fds w (Int_val fd) = Some (Failing e bs) \<and>
            0 \<le> len \<and> len < 2 ^ 31 \<longrightarrow> res = Inl (Unix_error e ''read'' Nothing)) \<and>
    (case stub_stdext_unix_read (open_stream 3 [65, 66, 67, 68, 69, 70] world0) 3 [0, 0, 0, 0] 0 4 of
       (w1, b1, r1) \<Rightarrow>
         r1 = Inr 4 \<and> b1 = [65, 66, 67, 68] \<and>
         (case stub_stdext_unix_read w1 3 b1 0 4 of
            (w2, b2, r2) \<Rightarrow>
              r2 = Inr 2 \<and> b2 = [69, 70, 67, 68] \<and>
              filter is_read (new_calls w1 w2) = [Read 3 1024 4 2]))"
proof -
  have scen: "(case stub_stdext_unix_read (open_stream 3 [65, 66, 67, 68, 69, 70] world0) 3 [0, 0, 0, 0] 0 4 of
       (w1, b1, r1) \<Rightarrow>
         r1 = Inr 4 \<and> b1 = [65, 66, 67, 68] \<and>
         (case stub_stdext_unix_read w1 3 b1 0 4 of
            (w2, b2, r2) \<Rightarrow>
              r2 = Inr 2 \<and> b2 = [69, 70, 67, 68] \<and>
              filter is_read (new_calls w1 w2) = [Read 3 1024 4 2]))"
    by (simp add: eval_defs)
  have ok: "access_ok (staging_base w) (read_count len)"
    if "\<not> out_of_memory w len" "0 \<le> len" "len < 2 ^ 31"
    using that by (intro access_ok_fits) (simp_all add: read_count_alloc_size)
  have gen: "(\<forall>w1 e p. posix_memalign w NULL BLOCK_SIZE (alloc_size len) = (w1, e, p) \<and> e \<noteq> 0 \<longrightarrow>
            filter is_read (new_calls w w') = []) \<and>
    (\<forall>w1 p. posix_memalign w NULL BLOCK_SIZE (alloc_size len) = (w1, 0, p) \<longrightarrow>
       (\<exists>w3 r staged.
          read (enter_blocking_section w1) (Int_val fd) p (read_count len) = Some (w3, r, staged) \<and>
          filter is_read (new_calls w w') = [Read (Int_val fd) p (read_count len) r] \<and>
          (r = - 1 \<longrightarrow> res = Inl (Unix_error (errno w3) ''read'' Nothing) \<and> buf' = buf) \<and>
          (r \<noteq> - 1 \<longrightarrow>
             (if in_bounds buf (sint (Long_val ofs)) (nat r) then res = Inr r
              else res = Inl Undefined_behaviour)) \<and>
          (\<forall>n. res = Inr n \<longrightarrow> n = r))) \<and>
    (\<forall>e bs. \<not> out_of_memory w len \<and> fds w (Int_val fd) = Some (Failing e bs) \<and>
            0 \<le> len \<and> len < 2 ^ 31 \<longrightarrow> res = Inl (Unix_error e ''read'' Nothing))"
  proof (cases rule: stub_cases[where w=w and len=len and fd=fd and buf=buf and ofs=ofs])
    case nomem
    then show ?thesis using assms by (simp add: done_calls posix_memalign_fail ENOMEM_def)
  next
    case badfd
    have "read (enter_blocking_section (allocated w len)) (Int_val fd) (staging_base w)
            (read_count len) =
          Some ((record_call (Read (Int_val fd) (staging_base w) (read_count len) (- 1))
                   (enter_blocking_section (allocated w len)))\<lparr>errno := EBADF\<rparr>, - 1, [])"
      using badfd(2)
      by (simp add: read_def enter_blocking_section_def record_call_def allocated_simps)
    then show ?thesis using badfd assms
      by (simp add: done_calls posix_memalign_ok)
  next
    case (efault st)
    have "read (enter_blocking_section (allocated w len)) (Int_val fd) (staging_base w)
            (read_count len) =
          Some ((record_call (Read (Int_val fd) (staging_base w) (read_count len) (- 1))
                   (enter_blocking_section (allocated w len)))\<lparr>errno := EFAULT\<rparr>, - 1, [])"
      using efault(2,3)
      by (simp add: read_def enter_blocking_section_def record_call_def allocated_simps)
    then show ?thesis using efault assms ok
      by (auto simp add: done_calls posix_memalign_ok)
  next
    case (failing e bs)
    have "read (enter_blocking_section (allocated w len)) (Int_val fd) (staging_base w)
            (read_count len) =
          Some ((record_call (Read (Int_val fd) (staging_base w) (read_count len) (- 1))
                   (enter_blocking_section (allocated w len)))
                  \<lparr>errno := e, fds := (fds w)(Int_val fd \<mapsto> Readable bs)\<rparr>, - 1, [])"
      using failing(2,3)
      by (simp add: read_def enter_blocking_section_def record_call_def allocated_simps)
    then show ?thesis using failing assms
      by (simp add: done_calls posix_memalign_ok)
  next
    case (oob bs)
    from oob assms show ?thesis
      using stub_readable_read[OF oob(2,3)]
      by (simp add: done_calls posix_memalign_ok)
  next
    case (ok bs)
    from ok assms show ?thesis
      using stub_readable_read[OF ok(2,3)]
      by (simp add: done_calls posix_memalign_ok)
  qed
  show ?thesis
    by (rule conjI[OF conjunct1[OF gen] conjI[OF conjunct1[OF conjunct2[OF gen]]
          conjI[OF conjunct2[OF conjunct2[OF gen]] scen]]])
qed

text \<open>The counterexample to C8 as stated: the stream is open, the memory does not suffice
  for the block, and no \<open>read\<close> is among the calls made.\<close>

theorem C8_counterexample:
  "filter is_read
     (new_calls (open_stream 3 [65, 66, 67, 68, 69, 70] (world0\<lparr>mem_limit := 256\<rparr>))
        (fst (stub_stdext_unix_read
                (open_stream 3 [65, 66, 67, 68, 69, 70] (world0\<lparr>mem_limit := 256\<rparr>))
                3 [0, 0, 0, 0] 0 4))) = []"
  by (simp add: eval_defs)

theorem C8_single_read_witness:
  "stub_stdext_unix_read (world0\<lparr>fds := [3 \<mapsto> Failing EINTR [1, 2]]\<rparr>) 3 [0, 0] 0 2 =
     (fst (stub_stdext_unix_read (world0\<lparr>fds := [3 \<mapsto> Failing EINTR [1, 2]]\<rparr>) 3 [0, 0] 0 2),
      fst (snd (stub_stdext_unix_read (world0\<lparr>fds := [3 \<mapsto> Failing EINTR [1, 2]]\<rparr>) 3 [0, 0] 0 2)),
      snd (snd (stub_stdext_unix_read (world0\<lparr>fds := [3 \<mapsto> Failing EINTR [1, 2]]\<rparr>) 3 [0, 0] 0 2))) \<and>
   \<not> out_of_memory (world0\<lparr>fds := [3 \<mapsto> Failing EINTR [1, 2]]\<rparr>) 2 \<and>
   fds (world0\<lparr>fds := [3 \<mapsto> Failing EINTR [1, 2]]\<rparr>) (Int_val 3) = Some (Failing EINTR [1, 2]) \<and>
   snd (snd (stub_stdext_unix_read (world0\<lparr>fds := [3 \<mapsto> Failing EINTR [1, 2]]\<rparr>) 3 [0, 0] 0 2)) =
     Inl (Unix_error EINTR ''read'' Nothing)"
proof -
  let ?w = "world0\<lparr>fds := [3 \<mapsto> Failing EINTR [1, 2]]\<rparr>"
  let ?a = "stub_stdext_unix_read ?w 3 [0, 0] 0 2"
  have h: "?a = (fst ?a, fst (snd ?a), snd (snd ?a))" by (simp only: prod.collapse)
  have m: "\<not> out_of_memory ?w 2"
    by (simp add: out_of_memory_def alloc_size_def staging_base_def eval_defs)
  have f: "fds ?w (Int_val 3) = Some (Failing EINTR [1, 2])"
    by (simp add: world0_def Int_val_def Long_val_def)
  from C8_single_read[OF h] have
    "\<forall>e bs. \<not> out_of_memory ?w 2 \<and> fds ?w (Int_val 3) = Some (Failing e bs) \<and>
            (0::int) \<le> 2 \<and> (2::int) < 2 ^ 31 \<longrightarrow> snd (snd ?a) = Inl (Unix_error e ''read'' Nothing)"
    by blast
  then have "snd (snd ?a) = Inl (Unix_error EINTR ''read'' Nothing)"
    using m f by simp
  then show ?thesis using h m f by blast
qed

text \<open>
  C9. The buffer passed to \<open>read\<close> is the block that \<open>posix_memalign\<close> handed out for the
  alignment \<open>BLOCK_SIZE = 512\<close> and the size \<open>len\<close>: its address is a multiple of 512, only
  \<open>enter_blocking_section\<close> lies between the allocation and the \<open>read\<close>, and the block is
  freed, if at all, after \<open>leave_blocking_section\<close>.
\<close>

theorem C9_staging_aligned:
  assumes "0 \<le> len" and "is_ocaml_int len"
    and "stub_stdext_unix_read w fd buf ofs len = (w', buf', res)"
    and "Read f p c r \<in> set (new_calls w w')"
  shows "BLOCK_SIZE = 512 \<and> p mod BLOCK_SIZE = 0 \<and> p \<noteq> NULL \<and>
    (\<exists>rest. new_calls w w' =
       Posix_memalign BLOCK_SIZE (nat len) 0 p # Enter_blocking_section # Read f p c r #
       Leave_blocking_section # rest \<and>
       (rest = [] \<and> blocks w' p = Some (nat len) \<or>
        (\<exists>d k. rest = [Memmove d p k, Free p])))"
proof -
  note sz = alloc_size_eq[OF assms(1,2)]
  note al = staging_base_aligned[of w] staging_base_not_NULL[of w]
  have bs: "BLOCK_SIZE = 512" by (simp add: BLOCK_SIZE_def)
  show ?thesis
  proof (cases rule: stub_cases[where w=w and len=len and fd=fd and buf=buf and ofs=ofs])
    case nomem
    then show ?thesis using assms(3,4) by (simp add: done_calls)
  next
    case badfd
    then have w': "w' = bad_fd_done w fd len" using assms(3) by simp
    have "blocks w' (staging_base w) = Some (nat len)"
      by (simp add: w' bad_fd_done_def allocated_simps sz)
    then show ?thesis using assms(4) al bs by (simp add: w' done_calls sz)
  next
    case (efault st)
    then have w': "w' = efault_done w fd len" using assms(3) by simp
    have "blocks w' (staging_base w) = Some (nat len)"
      by (simp add: w' efault_done_def allocated_simps sz)
    then show ?thesis using assms(4) al bs by (simp add: w' done_calls sz)
  next
    case (failing e bs)
    then have w': "w' = failing_done w fd len e bs" using assms(3) by simp
    have "blocks w' (staging_base w) = Some (nat len)"
      by (simp add: w' failing_done_def allocated_simps sz)
    then show ?thesis using assms(4) al bs by (simp add: w' done_calls sz)
  next
    case (oob bs)
    then have w': "w' = read_done w fd len bs" using assms(3) by simp
    have "blocks w' (staging_base w) = Some (nat len)"
      by (simp add: w' read_done_def allocated_simps sz)
    then show ?thesis using assms(4) al bs by (simp add: w' done_calls sz)
  next
    case (ok bs)
    then have w': "w' = copy_done w fd ofs len bs" using assms(3) by simp
    show ?thesis using assms(4) al bs by (simp add: w' done_calls sz)
  qed
qed

theorem C9_staging_aligned_witness:
  "(0::int) \<le> 4 \<and> is_ocaml_int 4 \<and>
   Read 3 512 4 3 \<in> set (new_calls (open_stream 3 [10, 20, 30] world0)
      (fst (stub_stdext_unix_read (open_stream 3 [10, 20, 30] world0) 3 [1, 2, 3, 4, 5, 6] 2 4))) \<and>
   (512::nat) mod BLOCK_SIZE = 0 \<and>
   new_calls (open_stream 3 [10, 20, 30] world0)
      (fst (stub_stdext_unix_read (open_stream 3 [10, 20, 30] world0) 3 [1, 2, 3, 4, 5, 6] 2 4)) =
     [Posix_memalign BLOCK_SIZE 4 0 512, Enter_blocking_section, Read 3 512 4 3,
      Leave_blocking_section, Memmove 2 512 3, Free 512]"
proof -
  let ?w = "open_stream 3 [10, 20, 30] world0"
  let ?a = "stub_stdext_unix_read ?w 3 [1, 2, 3, 4, 5, 6] 2 4"
  have h1: "(0::int) \<le> 4" by simp
  have h2: "is_ocaml_int 4" by (simp add: is_ocaml_int_def)
  have h3: "?a = (fst ?a, fst (snd ?a), snd (snd ?a))" by (simp only: prod.collapse)
  have h4: "Read 3 512 4 3 \<in> set (new_calls ?w (fst ?a))" by (simp add: eval_defs)
  have tr: "new_calls ?w (fst ?a) =
     [Posix_memalign BLOCK_SIZE 4 0 512, Enter_blocking_section, Read 3 512 4 3,
      Leave_blocking_section, Memmove 2 512 3, Free 512]"
    by (simp add: eval_defs)
  from C9_staging_aligned[OF h1 h2 h3 h4] have "(512::nat) mod BLOCK_SIZE = 0" by blast
  with h1 h2 h4 tr show ?thesis by blast
qed

text \<open>
  C10. The buffer is written, never read: two calls in the same world with the same
  descriptor, offset and length, on buffers of the same size with different contents, leave
  the same world, give the same result, and put the same bytes at \<open>ofs \<dots> ofs + n\<close>.
\<close>

theorem C10_dest_output_only:
  assumes "length buf1 = length buf2" and "is_ocaml_int ofs"
  shows "fst (stub_stdext_unix_read w fd buf1 ofs len) =
         fst (stub_stdext_unix_read w fd buf2 ofs len) \<and>
    snd (snd (stub_stdext_unix_read w fd buf1 ofs len)) =
    snd (snd (stub_stdext_unix_read w fd buf2 ofs len)) \<and>
    (\<forall>n. snd (snd (stub_stdext_unix_read w fd buf1 ofs len)) = Inr n \<longrightarrow>
       take (nat n) (drop (nat ofs) (fst (snd (stub_stdext_unix_read w fd buf1 ofs len)))) =
       take (nat n) (drop (nat ofs) (fst (snd (stub_stdext_unix_read w fd buf2 ofs len)))))"
proof -
  have ib: "in_bounds buf1 d k = in_bounds buf2 d k" for d k
    using assms(1) by (simp add: in_bounds_def)
  have cp: "take k (drop (nat ofs) (copied buf1 ofs (take k bs))) =
            take k (drop (nat ofs) (copied buf2 ofs (take k bs)))"
    if "in_bounds buf1 ofs k" "k \<le> length bs" for k bs
  proof (cases "k = 0")
    case True then show ?thesis by simp
  next
    case False
    then have "nat ofs \<le> length buf1" "nat ofs \<le> length buf2"
      using that(1) assms(1) unfolding in_bounds_def by linarith+
    then show ?thesis using False that(2) by (auto simp add: copied_def)
  qed
  note o = sint_Long_val[OF assms(2)]
  show ?thesis
  proof (cases rule: stub_cases[where w=w and len=len and fd=fd and buf=buf1 and ofs=ofs])
    case nomem
    then show ?thesis by (simp add: stub_out_of_memory)
  next
    case badfd
    then show ?thesis by (simp add: stub_bad_fd)
  next
    case (efault st)
    then show ?thesis by (simp add: stub_efault)
  next
    case (failing e bs)
    then show ?thesis by (simp add: stub_failing_fd)
  next
    case (oob bs)
    have "\<not> in_bounds buf2 (sint (Long_val ofs)) (transfer len bs)" using oob(4) ib by simp
    then have "stub_stdext_unix_read w fd buf2 ofs len =
       (read_done w fd len bs, buf2, Inl Undefined_behaviour)"
      using oob(1,2,3)
      by (cases rule: stub_cases[where w=w and len=len and fd=fd and buf=buf2 and ofs=ofs]) simp_all
    then show ?thesis using oob(5) by simp
  next
    case (ok bs)
    have "in_bounds buf2 (sint (Long_val ofs)) (transfer len bs)" using ok(4) ib by simp
    then have "stub_stdext_unix_read w fd buf2 ofs len =
       (copy_done w fd ofs len bs, copied buf2 (sint (Long_val ofs)) (take (transfer len bs) bs),
        Inr (int (transfer len bs)))"
      using ok(1,2,3)
      by (cases rule: stub_cases[where w=w and len=len and fd=fd and buf=buf2 and ofs=ofs]) simp_all
    then show ?thesis using ok(5) cp[OF ok(4)[unfolded o] transfer_le_length] by (simp add: o)
  qed
qed

theorem C10_dest_output_only_witness:
  "length [1, 2, 3, 4, 5, 6 :: byte] = length [9, 9, 9, 9, 9, 9 :: byte] \<and> is_ocaml_int 2 \<and>
   snd (snd (stub_stdext_unix_read (open_stream 3 [10, 20, 30] world0) 3 [1, 2, 3, 4, 5, 6] 2 4)) =
     Inr 3 \<and>
   snd (snd (stub_stdext_unix_read (open_stream 3 [10, 20, 30] world0) 3 [9, 9, 9, 9, 9, 9] 2 4)) =
     Inr 3 \<and>
   take (nat 3) (drop (nat 2) (fst (snd
     (stub_stdext_unix_read (open_stream 3 [10, 20, 30] world0) 3 [1, 2, 3, 4, 5, 6] 2 4)))) =
   take (nat 3) (drop (nat 2) (fst (snd
     (stub_stdext_unix_read (open_stream 3 [10, 20, 30] world0) 3 [9, 9, 9, 9, 9, 9] 2 4))))"
proof -
  let ?w = "open_stream 3 [10, 20, 30] world0"
  let ?a = "stub_stdext_unix_read ?w 3 [1, 2, 3, 4, 5, 6] 2 4"
  let ?b = "stub_stdext_unix_read ?w 3 [9, 9, 9, 9, 9, 9] 2 4"
  have h1: "length [1, 2, 3, 4, 5, 6 :: byte] = length [9, 9, 9, 9, 9, 9 :: byte]" by simp
  have h2: "is_ocaml_int 2" by (simp add: is_ocaml_int_def)
  have r: "snd (snd ?a) = Inr 3" by (simp add: eval_defs)
  note t = C10_dest_output_only[OF h1 h2, of ?w 3 4]
  from t have e: "snd (snd ?a) = snd (snd ?b)" by blast
  from t have "\<forall>n. snd (snd ?a) = Inr n \<longrightarrow>
       take (nat n) (drop (nat 2) (fst (snd ?a))) = take (nat n) (drop (nat 2) (fst (snd ?b)))"
    by blast
  then have "take (nat 3) (drop (nat 2) (fst (snd ?a))) = take (nat 3) (drop (nat 2) (fst (snd ?b)))"
    using r by blast
  then show ?thesis using h1 h2 r e by simp
qed

end
